theory Spec2Isabelle
  imports Main "HOL-Library.AList"
begin

section \<open>JSON values\<close>

text \<open>
  The values that cross the wire are JSON documents. A parsed document is a tree:
  \<open>null\<close>, a boolean, a number, a string, an array or an object whose properties
  are kept in insertion order. JavaScript's \<open>undefined\<close> (a property that is absent)
  is \<open>None\<close> of \<open>json option\<close>. Numbers are the integers: fractional and
  non-finite doubles are outside the model. Strings are lists of 8-bit characters.
\<close>

datatype json =
    JNull
  | JBool bool
  | JNum int
  | JStr string
  | JArr "json list"
  | JObj "(string \<times> json) list"

section \<open>The batching transport (utils/transport.js)\<close>

text \<open>
  A log payload is a JSON object, given by its properties. \<open>send\<close> pushes
  \<open>{...payload, ingested_at: Date.now()}\<close>: the spread copies the properties in
  order and the assignment overwrites \<open>ingested_at\<close> in place or adds it at the end,
  which is \<open>AList.update\<close>. The clock reading is an input of the call.
\<close>

type_synonym payload = "(string \<times> json) list"

definition stamp :: "payload \<times> int \<Rightarrow> payload" where
  "stamp pn = AList.update ''ingested_at'' (JNum (snd pn)) (fst pn)"

text \<open>
  The fields of \<open>OMLTransport\<close> that \<open>send\<close>, \<open>flush\<close> and the shutdown handler
  read and write, followed by the part of the host environment they act on: the
  timers that are armed and have neither fired nor been cleared, the number of
  \<open>setTimeout\<close> calls made so far (the next handle is this number plus one, so a
  handle is never falsy), the bodies of the POST requests handed to \<open>fetch\<close>, the
  lines written with \<open>console.error\<close> and whether \<open>process.exit\<close> was called.
\<close>

record transport =
  buffer :: "payload list"
  timer :: "nat option"
  shuttingDown :: bool
  isFlushing :: bool
  timers :: "nat list"
  armed :: nat
  requests :: "payload list list"
  errors :: "(string \<times> string) list"
  exited :: bool

text \<open>The constructor: an empty buffer, no timer, both flags false.\<close>

definition new_transport :: transport where
  "new_transport =
     \<lparr>buffer = [], timer = None, shuttingDown = False, isFlushing = False,
      timers = [], armed = 0, requests = [], errors = [], exited = False\<rparr>"

text \<open>\<open>this.timer = setTimeout(() => this.flush(), this.flushInterval)\<close>\<close>

definition setTimeout :: "transport \<Rightarrow> transport" where
  "setTimeout s =
     s\<lparr>timer := Some (Suc (armed s)),
       timers := timers s @ [Suc (armed s)],
       armed := Suc (armed s)\<rparr>"

text \<open>
  \<open>clearTimeout(h)\<close> cancels a pending timer and does nothing for one that has
  fired already.
\<close>

definition clearTimeout :: "nat \<Rightarrow> transport \<Rightarrow> transport" where
  "clearTimeout h s = s\<lparr>timers := removeAll h (timers s)\<rparr>"

text \<open>\<open>send(payload)\<close>, with the value of \<open>Date.now()\<close>.\<close>

definition send :: "payload \<times> int \<Rightarrow> transport \<Rightarrow> transport" where
  "send pn s =
     (if shuttingDown s then s
      else let s1 = s\<lparr>buffer := buffer s @ [stamp pn]\<rparr>
           in if timer s1 = None then setTimeout s1 else s1)"

text \<open>A run of \<open>send\<close> calls, oldest first.\<close>

fun sends :: "(payload \<times> int) list \<Rightarrow> transport \<Rightarrow> transport" where
  "sends [] s = s"
| "sends (pn # pns) s = sends pns (send pn s)"

text \<open>
  \<open>flush\<close> is an async function. Its synchronous part runs up to the
  \<open>await fetch(...)\<close> and either completes there (the in-progress guard, or an empty
  batch) or has issued the request and waits for it. The payloads are JSON trees, so
  \<open>JSON.stringify\<close> of the batch cannot throw.
\<close>

datatype flush_status = Done | Awaiting

definition flush :: "transport \<Rightarrow> flush_status \<times> transport" where
  "flush s =
     (if isFlushing s then (Done, s)
      else
        let s1 = s\<lparr>isFlushing := True\<rparr>;
            s2 = (case timer s1 of
                    None \<Rightarrow> s1
                  | Some h \<Rightarrow> (clearTimeout h s1)\<lparr>timer := None\<rparr>);
            batch = buffer s2;
            s3 = s2\<lparr>buffer := []\<rparr>
        in if length batch = 0 then (Done, s3\<lparr>isFlushing := False\<rparr>)
           else (Awaiting, s3\<lparr>requests := requests s3 @ [batch]\<rparr>))"

text \<open>
  The request settles: \<open>fetch\<close> rejects with a reason (\<open>Inl\<close>) or resolves with a
  response, of which only the status is kept (\<open>Inr\<close>); \<open>flush\<close> does not look at
  the response. The rest of \<open>flush\<close> is the \<open>catch\<close> block and the line after it.
  The result is what the caller of \<open>flush\<close> sees: \<open>Inl\<close> would be an exception
  that leaves \<open>flush\<close>, \<open>Inr ()\<close> a normal return.
\<close>

type_synonym fetch_result = "string + nat"

definition console_error :: "string \<Rightarrow> string \<Rightarrow> transport \<Rightarrow> transport" where
  "console_error label err s = s\<lparr>errors := errors s @ [(label, err)]\<rparr>"

definition flush_resume :: "fetch_result \<Rightarrow> transport \<Rightarrow> (string + unit) \<times> transport" where
  "flush_resume r s =
     (let s1 = (case r of
                  Inl err \<Rightarrow> console_error ''OMLTransport flush failed:'' err s
                | Inr status \<Rightarrow> s)
      in (Inr (), s1\<lparr>isFlushing := False\<rparr>))"

text \<open>
  The timer with handle \<open>h\<close> fires: its callback calls \<open>flush\<close>. Firing consumes
  the pending timer; the field \<open>timer\<close> still holds the handle. A handle that is not
  pending cannot fire.
\<close>

definition timer_fire :: "nat \<Rightarrow> transport \<Rightarrow> flush_status \<times> transport" where
  "timer_fire h s =
     (if h \<in> set (timers s) then flush (s\<lparr>timers := removeAll h (timers s)\<rparr>)
      else (Done, s))"



definition shutdownHandler_resume :: "transport \<Rightarrow> transport" where
  "shutdownHandler_resume s = s\<lparr>exited := True\<rparr>"


section \<open>JavaScript operations on JSON values\<close>

text \<open>
  Errors are values: the \<open>name\<close> and the \<open>message\<close> (here \<open>msg\<close>) of the
  error object. The message text of the errors that the engine itself throws is not
  modelled and left empty.
\<close>

datatype js_error = JsError (name: string) (msg: string)

definition TypeError :: js_error where
  "TypeError = JsError ''TypeError'' []"

definition RangeError :: js_error where
  "RangeError = JsError ''RangeError'' []"

text \<open>Truthiness, as \<open>||\<close>, \<open>&&\<close> and \<open>!\<close> test it; of a property that may be absent.\<close>

fun truthy :: "json \<Rightarrow> bool" where
  "truthy JNull = False"
| "truthy (JBool b) = b"
| "truthy (JNum n) = (n \<noteq> 0)"
| "truthy (JStr s) = (s \<noteq> [])"
| "truthy (JArr xs) = True"
| "truthy (JObj ps) = True"

fun truthy_opt :: "json option \<Rightarrow> bool" where
  "truthy_opt None = False"
| "truthy_opt (Some v) = truthy v"

text \<open>\<open>Array.isArray\<close>\<close>

fun isArray :: "json option \<Rightarrow> bool" where
  "isArray (Some (JArr xs)) = True"
| "isArray v = False"

text \<open>
  Reading one of the properties \<open>type\<close>, \<open>timestamp\<close>, \<open>appName\<close>, \<open>message\<close>,
  \<open>logs\<close>, \<open>keyId\<close> of a value that is not \<open>null\<close>: an object gives the property
  if it has it; numbers, booleans, strings and arrays have no property of these names.
  Reading a property of \<open>null\<close> throws, which the callers below handle before they
  call \<open>property\<close>.
\<close>

fun property :: "json \<Rightarrow> string \<Rightarrow> json option" where
  "property (JObj ps) k = map_of ps k"
| "property v k = None"

text \<open>\<open>a ?? b\<close>\<close>

fun nullish :: "json option \<Rightarrow> bool" where
  "nullish None = True"
| "nullish (Some JNull) = True"
| "nullish (Some v) = False"

definition coalesce :: "json option \<Rightarrow> json option \<Rightarrow> json option" where
  "coalesce a b = (if nullish a then b else a)"

text \<open>\<open>v?.k\<close>\<close>

definition property_opt :: "json \<Rightarrow> string \<Rightarrow> json option" where
  "property_opt v k = (if v = JNull then None else property v k)"

text \<open>Decimal digits of a natural number, and padding with zeros on the left.\<close>

fun digits :: "nat \<Rightarrow> string" where
  "digits n = (if n < 10 then [''0123456789'' ! n]
               else digits (n div 10) @ [''0123456789'' ! (n mod 10)])"

declare digits.simps [simp del]

definition pad :: "nat \<Rightarrow> nat \<Rightarrow> string" where
  "pad w n = replicate (w - length (digits n)) (CHR ''0'') @ digits n"

definition show_int :: "int \<Rightarrow> string" where
  "show_int i = (if i < 0 then ''-'' @ digits (nat (- i)) else digits (nat i))"

text \<open>\<open>String(v)\<close>; an array is its elements joined by commas, with \<open>null\<close> printed
  as the empty string. Integers are printed in decimal, as JavaScript prints them
  below 1e21.\<close>

fun join :: "string list \<Rightarrow> string" where
  "join [] = []"
| "join [s] = s"
| "join (s # t # ss) = s @ '','' @ join (t # ss)"

fun js_String :: "json \<Rightarrow> string" where
  "js_String JNull = ''null''"
| "js_String (JBool b) = (if b then ''true'' else ''false'')"
| "js_String (JNum n) = show_int n"
| "js_String (JStr s) = s"
| "js_String (JArr xs) = join (map (\<lambda>x. if x = JNull then [] else js_String x) xs)"
| "js_String (JObj ps) = ''[object Object]''"

definition js_String_opt :: "json option \<Rightarrow> string" where
  "js_String_opt v = (case v of None \<Rightarrow> ''undefined'' | Some x \<Rightarrow> js_String x)"

text \<open>\<open>s.replace(" ", "T")\<close> replaces the first space only.\<close>

fun replace_space :: "string \<Rightarrow> string" where
  "replace_space [] = []"
| "replace_space (c # cs) = (if c = CHR '' '' then CHR ''T'' # cs else c # replace_space cs)"

text \<open>\<open>s.toLowerCase()\<close> on the letters A to Z; other characters are kept.\<close>

definition lower_char :: "char \<Rightarrow> char" where
  "lower_char c =
     (case map_of (zip ''ABCDEFGHIJKLMNOPQRSTUVWXYZ'' ''abcdefghijklmnopqrstuvwxyz'') c of
        Some d \<Rightarrow> d
      | None \<Rightarrow> c)"

definition toLowerCase :: "string \<Rightarrow> string" where
  "toLowerCase s = map lower_char s"

text \<open>\<open>{...l}\<close>: the own enumerable properties of \<open>l\<close>. An array or a string
  spreads into its indices.\<close>

fun spread :: "json \<Rightarrow> (string \<times> json) list" where
  "spread (JObj ps) = ps"
| "spread (JArr xs) = zip (map digits [0..<length xs]) xs"
| "spread (JStr s) = zip (map digits [0..<length s]) (map (\<lambda>c. JStr [c]) s)"
| "spread v = []"

subsection \<open>Dates\<close>

text \<open>
  A \<open>Date\<close> holds a time value, milliseconds since the epoch, or is invalid
  (\<open>None\<close>). \<open>new Date(ms)\<close> is invalid beyond 8.64e15 milliseconds either side
  of the epoch. \<open>toISOString\<close> throws a RangeError for an invalid date and prints
  the UTC fields otherwise: the civil date of the day number, a four-digit year from 0
  to 9999 and a signed six-digit year outside.
\<close>

definition new_Date :: "int \<Rightarrow> int option" where
  "new_Date ms = (if \<bar>ms\<bar> \<le> 8640000000000000 then Some ms else None)"

definition civil :: "int \<Rightarrow> int \<times> nat \<times> nat" where
  "civil days =
     (let z = days + 719468;
          era = z div 146097;
          doe = z mod 146097;
          yoe = (doe - doe div 1460 + doe div 36524 - doe div 146096) div 365;
          doy = doe - (365 * yoe + yoe div 4 - yoe div 100);
          mp = (5 * doy + 2) div 153;
          d = doy - (153 * mp + 2) div 5 + 1;
          m = (if mp < 10 then mp + 3 else mp - 9);
          y = yoe + era * 400 + (if m \<le> 2 then 1 else 0)
      in (y, nat m, nat d))"

definition show_year :: "int \<Rightarrow> string" where
  "show_year y =
     (if 0 \<le> y \<and> y \<le> 9999 then pad 4 (nat y)
      else if y < 0 then ''-'' @ pad 6 (nat (- y))
      else ''+'' @ pad 6 (nat y))"

definition toISOString :: "int option \<Rightarrow> js_error + string" where
  "toISOString tv =
     (case tv of
        None \<Rightarrow> Inl RangeError
      | Some t \<Rightarrow>
          (case civil (t div 86400000) of
             (y, m, d) \<Rightarrow>
               let ms = t mod 86400000
               in Inr (show_year y @ ''-'' @ pad 2 m @ ''-'' @ pad 2 d @ ''T'' @
                       pad 2 (nat (ms div 3600000)) @ '':'' @
                       pad 2 (nat (ms div 60000 mod 60)) @ '':'' @
                       pad 2 (nat (ms div 1000 mod 60)) @ ''.'' @
                       pad 3 (nat (ms mod 1000)) @ ''Z'')))"

section \<open>The query hook (utils/getLogs.js)\<close>

text \<open>
  The state that the hook shows to its component. \<open>data\<close> is \<open>null\<close> until the
  first successful fetch.
\<close>

record 'd hook =
  data :: 'd
  isLoading :: bool
  error :: "js_error option"

text \<open>
  The module-level maps \<open>cache\<close> and \<open>inflight\<close>, keyed by the string that
  \<open>buildKey\<close> makes of the filters, and the environment of \<open>fetchOnce\<close>: the
  URLs requested so far (the promise of the n-th request is number n, from 0), the
  promises that have settled with their outcome, the invocations of \<open>fetchOnce\<close> that
  are suspended at \<open>await p\<close> with their key and promise, and what each invocation
  that has finished gave its caller. An invocation is named by a token that its caller
  chooses.
\<close>

record query_state =
  cache :: "string \<rightharpoonup> json"
  inflight :: "string \<rightharpoonup> nat"
  fetched :: "string list"
  settled :: "nat \<rightharpoonup> js_error + json"
  awaiting :: "nat \<rightharpoonup> string \<times> nat"
  returned :: "nat \<rightharpoonup> js_error + json"

definition new_query_state :: query_state where
  "new_query_state =
     \<lparr>cache = Map.empty, inflight = Map.empty, fetched = [], settled = Map.empty,
      awaiting = Map.empty, returned = Map.empty\<rparr>"

definition url_of :: "string \<Rightarrow> string" where
  "url_of k = ''/api/oneminutelogs/logs'' @ (if k \<noteq> [] then ''?'' @ k else [])"

text \<open>
  A response: its status, its body as text and what \<open>res.json()\<close> gives, the parsed
  body or the error of the parser. The \<open>then\<close> callback of \<open>fetchOnce\<close> turns a
  response into the outcome of the promise \<open>p\<close>; a rejection of \<open>fetch\<close> itself
  passes through.
\<close>

datatype response = Response nat string "js_error + json"

definition ok :: "nat \<Rightarrow> bool" where
  "ok status = (200 \<le> status \<and> status \<le> 299)"

definition on_response :: "response \<Rightarrow> js_error + json" where
  "on_response res =
     (case res of Response status text body \<Rightarrow>
        if \<not> ok status
        then Inl (JsError ''Error'' (''Failed to fetch logs ('' @ digits status @ '') '' @ text))
        else body)"

definition outcome :: "js_error + response \<Rightarrow> js_error + json" where
  "outcome r = (case r of Inl e \<Rightarrow> Inl e | Inr res \<Rightarrow> on_response res)"

text \<open>
  \<open>fetchOnce(k)\<close> up to its \<open>await\<close>, for the invocation \<open>c\<close>: a cached result
  is returned at once; otherwise the invocation waits for the promise in flight for
  \<open>k\<close>, which it creates, with one network call, if there is none.
\<close>

definition fetchOnce :: "nat \<Rightarrow> string \<Rightarrow> query_state \<Rightarrow> query_state" where
  "fetchOnce c k s =
     (case cache s k of
        Some v \<Rightarrow> s\<lparr>returned := (returned s)(c \<mapsto> Inr v)\<rparr>
      | None \<Rightarrow>
          (case inflight s k of
             Some p \<Rightarrow> s\<lparr>awaiting := (awaiting s)(c \<mapsto> (k, p))\<rparr>
           | None \<Rightarrow>
               s\<lparr>fetched := fetched s @ [url_of k],
                 inflight := (inflight s)(k \<mapsto> length (fetched s)),
                 awaiting := (awaiting s)(c \<mapsto> (k, length (fetched s)))\<rparr>))"

text \<open>The request of promise \<open>p\<close> comes back; a promise settles once.\<close>

definition settle :: "nat \<Rightarrow> js_error + response \<Rightarrow> query_state \<Rightarrow> query_state" where
  "settle p r s =
     (if p < length (fetched s) \<and> settled s p = None
      then s\<lparr>settled := (settled s)(p \<mapsto> outcome r)\<rparr>
      else s)"

text \<open>
  The invocation \<open>c\<close> continues after its \<open>await\<close>, once its promise has settled:
  the \<open>try\<close> block stores and returns the result, or the rejection leaves through
  it, and the \<open>finally\<close> block deletes the in-flight entry of the key.
\<close>

definition resume :: "nat \<Rightarrow> query_state \<Rightarrow> query_state" where
  "resume c s =
     (case awaiting s c of
        None \<Rightarrow> s
      | Some (k, p) \<Rightarrow>
          (case settled s p of
             None \<Rightarrow> s
           | Some (Inr result) \<Rightarrow>
               s\<lparr>cache := (cache s)(k \<mapsto> result),
                 returned := (returned s)(c \<mapsto> Inr result),
                 inflight := (inflight s)(k := None),
                 awaiting := (awaiting s)(c := None)\<rparr>
           | Some (Inl e) \<Rightarrow>
               s\<lparr>returned := (returned s)(c \<mapsto> Inl e),
                 inflight := (inflight s)(k := None),
                 awaiting := (awaiting s)(c := None)\<rparr>))"

text \<open>
  \<open>refetch\<close> deletes the cache entry of the key and calls \<open>fetchLogs\<close>, whose
  first action on the shared maps is \<open>fetchOnce(key)\<close>.
\<close>

definition refetch :: "nat \<Rightarrow> string \<Rightarrow> query_state \<Rightarrow> query_state" where
  "refetch c k s = fetchOnce c k (s\<lparr>cache := (cache s)(k := None)\<rparr>)"

text \<open>
  \<open>fetchLogs\<close> around \<open>fetchOnce\<close>: before the call it sets the loading flag and
  clears the error; after it, with what \<open>fetchOnce\<close> gave, it stores the rows, or
  the error unless it is an abort, and clears the loading flag.
\<close>

definition fetchLogs_begin :: "json hook \<Rightarrow> json hook" where
  "fetchLogs_begin h = h\<lparr>isLoading := True, error := None\<rparr>"

definition rows :: "json \<Rightarrow> json" where
  "rows json =
     (case (if isArray (Some json) then Some json
            else coalesce (coalesce (property_opt json ''logs'') (Some json)) (Some (JArr []))) of
        Some r \<Rightarrow> r
      | None \<Rightarrow> JArr [])"

definition fetchLogs_resume :: "js_error + json \<Rightarrow> json hook \<Rightarrow> json hook" where
  "fetchLogs_resume r h =
     (case r of
        Inr json \<Rightarrow>
          h\<lparr>data := (case coalesce (Some (rows json)) (Some (JArr [])) of
                       Some d \<Rightarrow> d | None \<Rightarrow> JArr []),
            isLoading := False\<rparr>
      | Inl e \<Rightarrow>
          (if name e \<noteq> ''AbortError'' then h\<lparr>error := Some e, data := JNull\<rparr> else h)
            \<lparr>isLoading := False\<rparr>)"

text \<open>The states of the shared maps that the operations can reach.\<close>

inductive reachable :: "query_state \<Rightarrow> bool" where
  r_init: "reachable new_query_state"
| r_fetchOnce: "reachable s \<Longrightarrow> reachable (fetchOnce c k s)"
| r_refetch: "reachable s \<Longrightarrow> reachable (refetch c k s)"
| r_settle: "reachable s \<Longrightarrow> reachable (settle p r s)"
| r_resume: "reachable s \<Longrightarrow> reachable (resume c s)"

section \<open>The stream hook (utils/getStream.js)\<close>

text \<open>
  What the hook takes from its host: \<open>Date.parse\<close> applied to a string (\<open>None\<close>
  is an invalid date) and the identifiers that \<open>crypto.randomUUID()\<close> returns, in
  the order of the calls.
\<close>

record env =
  date_parse :: "string \<Rightarrow> int option"
  randomUUID :: "nat \<Rightarrow> string"

text \<open>The normalised entry. \<open>source\<close> and \<open>message\<close> are whatever values the raw
  record holds.\<close>

record entry =
  entry_id :: string
  ts :: string
  level :: string
  source :: json
  message :: "json option"
  payload :: "(string \<times> json) list"

text \<open>\<open>(l.type || "info").toLowerCase()\<close>: a truthy value that is not a string has
  no method \<open>toLowerCase\<close>.\<close>

fun rawType :: "json option \<Rightarrow> js_error + string" where
  "rawType (Some (JStr t)) = Inr (toLowerCase (if t = [] then ''info'' else t))"
| "rawType v = (if truthy_opt v then Inl TypeError else Inr (toLowerCase ''info''))"

definition level_of :: "string \<Rightarrow> string" where
  "level_of t =
     (if t = ''warning'' then ''warning''
      else if t = ''success'' then ''success''
      else if t = ''error'' then ''error''
      else if t = ''debug'' then ''debug''
      else if t = ''audit'' then ''audit''
      else if t = ''metric'' then ''metric''
      else ''info'')"

fun tsIso :: "env \<Rightarrow> json option \<Rightarrow> js_error + string" where
  "tsIso env (Some (JNum n)) = toISOString (new_Date (n * 1000))"
| "tsIso env v = toISOString (date_parse env (replace_space (js_String_opt v) @ ''Z''))"

text \<open>\<open>l.appName || "default"\<close>\<close>

definition source_of :: "json option \<Rightarrow> json" where
  "source_of v = (case v of None \<Rightarrow> JStr ''default''
                  | Some a \<Rightarrow> if truthy a then a else JStr ''default'')"

text \<open>\<open>toLogEntry(l)\<close>, with the identifier that \<open>crypto.randomUUID()\<close> returns
  to it. The level and the timestamp are computed first, so an error leaves before an
  identifier is drawn.\<close>

definition toLogEntry :: "env \<Rightarrow> string \<Rightarrow> json \<Rightarrow> js_error + entry" where
  "toLogEntry env u l =
     (if l = JNull then Inl TypeError
      else case rawType (property l ''type'') of
             Inl e \<Rightarrow> Inl e
           | Inr t \<Rightarrow>
               (case tsIso env (property l ''timestamp'') of
                  Inl e \<Rightarrow> Inl e
                | Inr stamp_iso \<Rightarrow>
                    Inr \<lparr>entry_id = u, ts = stamp_iso, level = level_of t,
                         source = source_of (property l ''appName''),
                         message = property l ''message'',
                         payload = spread l\<rparr>))"

text \<open>\<open>ls.map((l) => toLogEntry(l))\<close>, when \<open>n\<close> identifiers have been drawn
  before.\<close>

fun toLogEntries :: "env \<Rightarrow> nat \<Rightarrow> json list \<Rightarrow> js_error + entry list" where
  "toLogEntries env n [] = Inr []"
| "toLogEntries env n (l # ls) =
     (case toLogEntry env (randomUUID env n) l of
        Inl e \<Rightarrow> Inl e
      | Inr x \<Rightarrow>
          (case toLogEntries env (Suc n) ls of
             Inl e \<Rightarrow> Inl e
           | Inr xs \<Rightarrow> Inr (x # xs)))"

fun elements :: "json option \<Rightarrow> json list" where
  "elements (Some (JArr xs)) = xs"
| "elements v = []"

text \<open>The three branches that fill \<open>incoming\<close>.\<close>

definition incoming :: "env \<Rightarrow> nat \<Rightarrow> json \<Rightarrow> js_error + entry list" where
  "incoming env n pl =
     (if truthy pl \<and> isArray (property pl ''logs'')
      then toLogEntries env n (elements (property pl ''logs''))
      else if isArray (Some pl) then toLogEntries env n (elements (Some pl))
      else if truthy pl \<and> truthy_opt (property pl ''keyId'')
      then toLogEntries env n [pl]
      else Inr [])"

text \<open>Keeping the last 5000: \<open>next.slice(next.length - 5000)\<close> for the initial batch
  and \<open>next.splice(0, next.length - 5000)\<close> for the others.\<close>

definition cap :: "'a list \<Rightarrow> 'a list" where
  "cap next = (if length next > 5000 then drop (length next - 5000) next else next)"

text \<open>The function given to \<open>setData\<close>, from the previous window to the next.\<close>

definition updater :: "env \<Rightarrow> nat \<Rightarrow> json \<Rightarrow> entry list \<Rightarrow> js_error + entry list" where
  "updater env n pl prev =
     (case incoming env n pl of
        Inl e \<Rightarrow> Inl e
      | Inr inc \<Rightarrow>
          if property_opt pl ''type'' = Some (JStr ''initial'') then Inr (cap inc)
          else Inr (cap (prev @ inc)))"

text \<open>
  The state of the hook, with the number of identifiers drawn so far. \<open>onmessage\<close>
  takes what \<open>JSON.parse(event.data)\<close> gives: an error of the parser is caught and
  stored, and the window is not touched. An error thrown inside the function given to
  \<open>setData\<close> is outside the \<open>try\<close> block's reach when React runs it; it is the
  \<open>Inl\<close> result.
\<close>

record stream = "entry list hook" +
  connected :: bool
  uuids :: nat

definition new_stream :: stream where
  "new_stream = \<lparr>data = [], isLoading = True, error = None, connected = True, uuids = 0\<rparr>"

definition onmessage :: "env \<Rightarrow> js_error + json \<Rightarrow> stream \<Rightarrow> js_error + stream" where
  "onmessage env m s =
     (case m of
        Inl err \<Rightarrow> Inr (s\<lparr>error := Some err, isLoading := False\<rparr>)
      | Inr pl \<Rightarrow>
          (case updater env (uuids s) pl (data s) of
             Inl e \<Rightarrow> Inl e
           | Inr next \<Rightarrow>
               Inr (s\<lparr>data := next, isLoading := False,
                      uuids := uuids s + (case incoming env (uuids s) pl of
                                           Inl e \<Rightarrow> 0 | Inr inc \<Rightarrow> length inc)\<rparr>)))"

text \<open>Messages arriving one after the other.\<close>

fun feed :: "env \<Rightarrow> json list \<Rightarrow> stream \<Rightarrow> js_error + stream" where
  "feed env [] s = Inr s"
| "feed env (m # ms) s =
     (case onmessage env (Inr m) s of
        Inl e \<Rightarrow> Inl e
      | Inr s' \<Rightarrow> feed env ms s')"

subsection \<open>Records that \<open>toLogEntry\<close> accepts\<close>

text \<open>
  The inputs on which \<open>toLogEntry\<close> does not throw: the \<open>type\<close> is absent,
  falsy or a string, and the \<open>timestamp\<close> is a number within the range of
  \<open>Date\<close> or prints as a string that \<open>Date.parse\<close> accepts.
\<close>

fun type_ok :: "json option \<Rightarrow> bool" where
  "type_ok (Some (JStr t)) = True"
| "type_ok v = (\<not> truthy_opt v)"

fun timestamp_ok :: "env \<Rightarrow> json option \<Rightarrow> bool" where
  "timestamp_ok env (Some (JNum n)) = (\<bar>n * 1000\<bar> \<le> 8640000000000000)"
| "timestamp_ok env v = (date_parse env (replace_space (js_String_opt v) @ ''Z'') \<noteq> None)"

definition well_formed :: "env \<Rightarrow> (string \<times> json) list \<Rightarrow> bool" where
  "well_formed env r \<longleftrightarrow> type_ok (map_of r ''type'') \<and> timestamp_ok env (map_of r ''timestamp'')"

text \<open>
  A record that arrives alone as an incremental message and is taken by the third
  branch of \<open>incoming\<close>: it has a truthy \<open>keyId\<close>, no array under \<open>logs\<close> and
  is not tagged \<open>initial\<close>.
\<close>

definition single_record :: "env \<Rightarrow> (string \<times> json) list \<Rightarrow> bool" where
  "single_record env r \<longleftrightarrow>
     truthy_opt (map_of r ''keyId'') \<and> \<not> isArray (map_of r ''logs'') \<and>
     map_of r ''type'' \<noteq> Some (JStr ''initial'') \<and> well_formed env r"

text \<open>A raw type that is recognised: a string that lower-cases to one of the six
  levels other than \<open>info\<close>.\<close>

fun recognised :: "json option \<Rightarrow> bool" where
  "recognised (Some (JStr t)) =
     (toLowerCase t \<in> {''warning'', ''success'', ''error'', ''debug'', ''audit'', ''metric''})"
| "recognised v = False"

section \<open>Concrete runs\<close>

text \<open>A host whose \<open>Date.parse\<close> accepts nothing and whose identifiers are
  numbered.\<close>

definition sample_env :: env where
  "sample_env = \<lparr>date_parse = (\<lambda>s. None), randomUUID = (\<lambda>n. ''id-'' @ digits n)\<rparr>"

text \<open>The record and the initial envelope of the specification's example.\<close>

definition example_record :: "(string \<times> json) list" where
  "example_record =
     [(''type'', JStr ''ERROR''), (''message'', JStr ''m''), (''timestamp'', JNum 1700000000)]"

definition initial_message :: json where
  "initial_message = JObj [(''type'', JStr ''initial''), (''logs'', JArr [JObj example_record])]"

text \<open>
  A transport whose first flush is still waiting for its request: one event was sent,
  its timer fired and the batch is on the wire. Then a second event arrives.
\<close>

definition slow_transport :: transport where
  "slow_transport = snd (timer_fire 1 (send ([(''message'', JStr ''first'')], 1000) new_transport))"

definition late_events :: "(payload \<times> int) list" where
  "late_events = [([(''message'', JStr ''second'')], 1500)]"

text \<open>The shared maps while the first request for a key is pending.\<close>

definition pending_query :: query_state where
  "pending_query = fetchOnce 0 ''type=error'' new_query_state"

text \<open>5001 records that differ in their message, each with a key identifier.\<close>

definition numbered_record :: "nat \<Rightarrow> (string \<times> json) list" where
  "numbered_record i =
     [(''keyId'', JStr ''k''), (''message'', JNum (int i)), (''timestamp'', JNum 1700000000)]"

definition many_records :: "(string \<times> json) list list" where
  "many_records = map numbered_record [1..<5002]"

section \<open>Properties of the transport\<close>

lemma sends_shuttingDown [simp]: "shuttingDown (sends pns s) = shuttingDown s"
  by (induction pns arbitrary: s) (auto simp: send_def setTimeout_def Let_def)

lemma sends_isFlushing [simp]: "isFlushing (sends pns s) = isFlushing s"
  by (induction pns arbitrary: s) (auto simp: send_def setTimeout_def Let_def)

lemma sends_requests [simp]: "requests (sends pns s) = requests s"
  by (induction pns arbitrary: s) (auto simp: send_def setTimeout_def Let_def)

lemma sends_errors [simp]: "errors (sends pns s) = errors s"
  by (induction pns arbitrary: s) (auto simp: send_def setTimeout_def Let_def)

lemma sends_buffer:
  "\<not> shuttingDown s \<Longrightarrow> buffer (sends pns s) = buffer s @ map stamp pns"
  by (induction pns arbitrary: s) (auto simp: send_def setTimeout_def Let_def)

lemma sends_timer_set:
  "timer s = Some h \<Longrightarrow>
   timer (sends pns s) = Some h \<and> timers (sends pns s) = timers s \<and>
   armed (sends pns s) = armed s"
  by (induction pns arbitrary: s) (auto simp: send_def Let_def)

lemma sends_arms_once:
  assumes "\<not> shuttingDown s" and "timer s = None" and "pns \<noteq> []"
  shows "timer (sends pns s) = Some (Suc (armed s)) \<and>
         timers (sends pns s) = timers s @ [Suc (armed s)] \<and>
         armed (sends pns s) = Suc (armed s)"
proof (cases pns)
  case Nil
  with assms show ?thesis by simp
next
  case (Cons pn rest)
  have first: "timer (send pn s) = Some (Suc (armed s))"
    "timers (send pn s) = timers s @ [Suc (armed s)]"
    "armed (send pn s) = Suc (armed s)"
    using assms by (simp_all add: send_def setTimeout_def Let_def)
  from sends_timer_set [OF first(1), of rest] first Cons show ?thesis by simp
qed


lemma flush_when_flushing: "isFlushing s \<Longrightarrow> flush s = (Done, s)"
  by (simp add: flush_def)

lemma flush_drains:
  assumes "\<not> isFlushing s" and "buffer s \<noteq> []"
  shows "fst (flush s) = Awaiting" and "requests (snd (flush s)) = requests s @ [buffer s]"
    and "buffer (snd (flush s)) = []" and "isFlushing (snd (flush s))"
    and "timer (snd (flush s)) = None" and "shuttingDown (snd (flush s)) = shuttingDown s"
    and "errors (snd (flush s)) = errors s"
    and "timers (snd (flush s)) = (case timer s of None \<Rightarrow> timers s | Some h \<Rightarrow> removeAll h (timers s))"
  using assms by (auto simp: flush_def clearTimeout_def Let_def split: option.splits)

lemma flushes_idle: "isFlushing t \<Longrightarrow> ((\<lambda>u. snd (flush u)) ^^ n) t = t"
  by (induction n) (simp_all add: flush_when_flushing)

lemma sends_append: "sends (pns1 @ pns2) s = sends pns2 (sends pns1 s)"
  by (induction pns1 arbitrary: s) simp_all

lemma send_flush_resume:
  "send pn (snd (flush_resume r s)) = snd (flush_resume r (send pn s))"
  by (cases r) (simp_all add: send_def flush_resume_def console_error_def setTimeout_def Let_def)

lemma sends_flush_resume:
  "sends pns (snd (flush_resume r s)) = snd (flush_resume r (sends pns s))"
  by (induction pns arbitrary: s) (simp_all add: send_flush_resume)

lemma flush_resume_fields:
  "buffer (snd (flush_resume r s)) = buffer s"
  "timer (snd (flush_resume r s)) = timer s"
  "timers (snd (flush_resume r s)) = timers s"
  "armed (snd (flush_resume r s)) = armed s"
  "requests (snd (flush_resume r s)) = requests s"
  "shuttingDown (snd (flush_resume r s)) = shuttingDown s"
  "\<not> isFlushing (snd (flush_resume r s))"
  by (cases r; simp add: flush_resume_def console_error_def Let_def)+

text \<open>
  C1 (as amended). Take a transport that is not shutting down, with no timer pending
  and an empty buffer, and a non-empty run of \<open>send\<close> calls before the timer
  fires; if a flush is in progress at the start, let its request settle somewhere
  within the run, so that no flush is in progress when the timer fires. Then
  \<open>setTimeout\<close> is called once, by the first call, and one timer is pending; when
  it fires, \<open>flush\<close> issues one request whose batch is the events of the run,
  stamped, in the order of the calls, and leaves the buffer empty and no timer behind.
\<close>

theorem sends_in_one_interval_one_flush:
  assumes "\<not> shuttingDown s" and "timer s = None" and "buffer s = []"
    and "pns1 @ pns2 \<noteq> []"
    and "t = (if isFlushing s then sends pns2 (snd (flush_resume r (sends pns1 s)))
              else sends (pns1 @ pns2) s)"
  shows "armed t = Suc (armed s) \<and>
         timers t = timers s @ [Suc (armed s)] \<and>
         timer t = Some (Suc (armed s)) \<and>
         fst (timer_fire (Suc (armed s)) t) = Awaiting \<and>
         requests (snd (timer_fire (Suc (armed s)) t)) = requests s @ [map stamp (pns1 @ pns2)] \<and>
         buffer (snd (timer_fire (Suc (armed s)) t)) = [] \<and>
         timer (snd (timer_fire (Suc (armed s)) t)) = None \<and>
         Suc (armed s) \<notin> set (timers (snd (timer_fire (Suc (armed s)) t)))"
proof -
  let ?h = "Suc (armed s)"
  let ?a = "sends (pns1 @ pns2) s"
  let ?u = "t\<lparr>timers := removeAll ?h (timers t)\<rparr>"
  from sends_arms_once [OF assms(1,2,4)]
  have arm: "timer ?a = Some ?h" "timers ?a = timers s @ [?h]" "armed ?a = ?h"
    by simp_all
  have buf: "buffer ?a = map stamp (pns1 @ pns2)"
    using sends_buffer [OF assms(1), of "pns1 @ pns2"] assms(3) by simp
  have t_eq: "t = (if isFlushing s then snd (flush_resume r ?a) else ?a)"
    using assms(5) by (simp add: sends_append sends_flush_resume)
  have same: "timer t = timer ?a" "timers t = timers ?a" "armed t = armed ?a"
    "buffer t = buffer ?a" "requests t = requests s" "\<not> isFlushing t"
    unfolding t_eq by (simp_all add: flush_resume_fields)
  have fire: "timer_fire ?h t = flush ?u"
    using arm(2) same(2) by (simp add: timer_fire_def)
  have idle: "\<not> isFlushing ?u" and full: "buffer ?u \<noteq> []"
    using same(4,6) buf assms(4) by simp_all
  have "buffer ?u = map stamp (pns1 @ pns2)" "requests ?u = requests s" "timer ?u = Some ?h"
    using buf arm same by simp_all
  with flush_drains [OF idle full] fire arm same show ?thesis
    by simp
qed

theorem sends_in_one_interval_one_flush_witness:
  "\<not> shuttingDown slow_transport \<and> timer slow_transport = None \<and> buffer slow_transport = [] \<and>
   late_events @ [([(''message'', JStr ''third'')], 1700)] \<noteq> [] \<and> isFlushing slow_transport \<and>
   armed slow_transport = 1 \<and>
   timers (sends [([(''message'', JStr ''third'')], 1700)]
            (snd (flush_resume (Inr 200) (sends late_events slow_transport)))) = [2] \<and>
   requests (snd (timer_fire 2 (sends [([(''message'', JStr ''third'')], 1700)]
            (snd (flush_resume (Inr 200) (sends late_events slow_transport)))))) =
     [[[(''message'', JStr ''first''), (''ingested_at'', JNum 1000)]],
      [[(''message'', JStr ''second''), (''ingested_at'', JNum 1500)],
       [(''message'', JStr ''third''), (''ingested_at'', JNum 1700)]]]"
proof -
  have h: "\<not> shuttingDown slow_transport" "timer slow_transport = None"
    "buffer slow_transport = []" "isFlushing slow_transport" "armed slow_transport = 1"
    "timers slow_transport = []"
    "requests slow_transport = [[[(''message'', JStr ''first''), (''ingested_at'', JNum 1000)]]]"
    by (simp_all add: slow_transport_def new_transport_def send_def setTimeout_def
        timer_fire_def flush_def clearTimeout_def Let_def stamp_def)
  have ne: "late_events @ [([(''message'', JStr ''third'')], 1700)] \<noteq> []"
    by simp
  have st: "map stamp (late_events @ [([(''message'', JStr ''third'')], 1700)]) =
      [[(''message'', JStr ''second''), (''ingested_at'', JNum 1500)],
       [(''message'', JStr ''third''), (''ingested_at'', JNum 1700)]]"
    by (simp add: late_events_def stamp_def)
  note inst = sends_in_one_interval_one_flush [OF h(1,2,3) ne,
      of "sends [([(''message'', JStr ''third'')], 1700)]
            (snd (flush_resume (Inr 200) (sends late_events slow_transport)))" "Inr 200"]
  have two: "Suc (armed slow_transport) = 2"
    using h(5) by simp
  show ?thesis
    using inst [unfolded two h(6,7) st] h(1-5) ne by simp
qed

text \<open>
  The statement of C1 without the condition on the flush in progress fails. While the
  request of the first flush is pending, a second event is sent; it arms timer 2; the
  timer fires and \<open>flush\<close> returns at its guard. The event stays in the buffer, no
  timer is pending, the field \<open>timer\<close> keeps the fired handle, and a later
  \<open>send\<close> arms nothing, also after the first request has settled.
\<close>

theorem late_events_never_flushed:
  "\<not> shuttingDown slow_transport \<and> timer slow_transport = None \<and> buffer slow_transport = [] \<and>
   timers (sends late_events slow_transport) = [2] \<and>
   fst (timer_fire 2 (sends late_events slow_transport)) = Done \<and>
   requests (snd (timer_fire 2 (sends late_events slow_transport))) = requests slow_transport \<and>
   buffer (snd (timer_fire 2 (sends late_events slow_transport))) = map stamp late_events \<and>
   timers (snd (timer_fire 2 (sends late_events slow_transport))) = [] \<and>
   timers (send ([(''message'', JStr ''third'')], 4000)
            (snd (flush_resume (Inr 200) (snd (timer_fire 2 (sends late_events slow_transport)))))) = []"
  by (simp add: slow_transport_def late_events_def new_transport_def send_def setTimeout_def
      timer_fire_def flush_def clearTimeout_def flush_resume_def Let_def stamp_def)

text \<open>
  C2. While a flush is in progress, \<open>flush\<close> returns at once and changes nothing:
  it drains no buffer and issues no request. So a flush that starts on a non-empty
  buffer issues one request, with that buffer as its batch, and any number of further
  calls of \<open>flush\<close> before the request settles add none. When the request settles,
  with a response or with a failure, the guard is cleared.
\<close>
theorem flush_guard_single_request:
  "(isFlushing s \<longrightarrow> flush s = (Done, s)) \<and>
   (\<not> isFlushing t \<and> buffer t \<noteq> [] \<longrightarrow>
      fst (flush t) = Awaiting \<and>
      requests (snd (flush t)) = requests t @ [buffer t] \<and>
      ((\<lambda>u. snd (flush u)) ^^ n) (snd (flush t)) = snd (flush t)) \<and>
   \<not> isFlushing (snd (flush_resume r u))"
  using flush_drains [of t] flushes_idle [of "snd (flush t)" n]
  by (auto simp: flush_when_flushing flush_resume_def Let_def split: sum.splits)

theorem flush_guard_single_request_witness:
  "isFlushing slow_transport \<and> flush slow_transport = (Done, slow_transport) \<and>
   \<not> isFlushing (sends late_events new_transport) \<and>
   buffer (sends late_events new_transport) \<noteq> [] \<and>
   requests (snd (flush (sends late_events new_transport))) = [map stamp late_events] \<and>
   ((\<lambda>u. snd (flush u)) ^^ 3) (snd (flush (sends late_events new_transport))) =
     snd (flush (sends late_events new_transport)) \<and>
   \<not> isFlushing (snd (flush_resume (Inl ''offline'') slow_transport)) \<and>
   \<not> isFlushing (snd (flush_resume (Inr 200) slow_transport))"
proof -
  have a: "isFlushing slow_transport"
    by (simp add: slow_transport_def new_transport_def send_def setTimeout_def
        timer_fire_def flush_def clearTimeout_def Let_def)
  have b: "\<not> isFlushing (sends late_events new_transport)"
    "buffer (sends late_events new_transport) = map stamp late_events"
    "requests (sends late_events new_transport) = []"
    by (simp_all add: late_events_def new_transport_def send_def setTimeout_def Let_def)
  have c: "map stamp late_events \<noteq> []"
    by (simp add: late_events_def)
  show ?thesis
    using a b c
      flush_guard_single_request [of slow_transport "sends late_events new_transport" 3
        "Inl ''offline''" slow_transport]
      flush_guard_single_request [of slow_transport "sends late_events new_transport" 3
        "Inr 200" slow_transport]
    by simp
qed


lemma flush_resume_returns: "fst (flush_resume r s) = Inr ()"
  by (simp add: flush_resume_def Let_def)















section \<open>Properties of the query hook\<close>

lemma cache_excludes_inflight:
  "reachable s \<Longrightarrow> cache s k \<noteq> None \<Longrightarrow> inflight s k = None"
proof (induction arbitrary: k rule: reachable.induct)
  case r_init
  then show ?case by (simp add: new_query_state_def)
next
  case (r_fetchOnce s c k')
  then show ?case
    by (auto simp: fetchOnce_def split: option.splits if_splits)
next
  case (r_refetch s c k')
  then show ?case
    by (auto simp: refetch_def fetchOnce_def split: option.splits if_splits)
next
  case (r_settle s p r)
  then show ?case by (auto simp: settle_def)
next
  case (r_resume s c)
  then show ?case
    by (auto simp: resume_def split: option.splits sum.splits if_splits)
qed

lemma fetchOnce_miss:
  assumes "cache s k = None" and "inflight s k = None"
  shows "fetchOnce c k s =
           s\<lparr>fetched := fetched s @ [url_of k],
             inflight := (inflight s)(k \<mapsto> length (fetched s)),
             awaiting := (awaiting s)(c \<mapsto> (k, length (fetched s)))\<rparr>"
  using assms by (simp add: fetchOnce_def)

lemma fetchOnce_join:
  assumes "cache s k = None" and "inflight s k = Some p"
  shows "fetchOnce c k s = s\<lparr>awaiting := (awaiting s)(c \<mapsto> (k, p))\<rparr>"
  using assms by (simp add: fetchOnce_def)

lemma fetchOnce_hit:
  assumes "cache s k = Some v"
  shows "fetchOnce c k s = s\<lparr>returned := (returned s)(c \<mapsto> Inr v)\<rparr>"
  using assms by (simp add: fetchOnce_def)

text \<open>
  C5. For a key with no cache entry and no request in flight, two invocations of
  \<open>fetchOnce\<close> before the request settles make one network call. Whichever of the
  two continues first once it has settled, both receive the outcome of that one
  request and the in-flight entry of the key is deleted. A result is stored in the
  cache, and a later \<open>fetchOnce\<close> returns it with no network call; after a failure
  the cache has no entry for the key, and a later \<open>fetchOnce\<close> makes a new network
  call. In any state, a key with a cache entry is answered from it with no network
  call.
\<close>
theorem fetchOnce_deduplicates:
  assumes "cache s k = None" and "inflight s k = None" and "c1 \<noteq> c2"
    and "settled s (length (fetched s)) = None"
  shows "fetched (fetchOnce c2 k (fetchOnce c1 k s)) = fetched s @ [url_of k] \<and>
         (\<forall>t \<in> {resume c2 (resume c1 (settle (length (fetched s)) r (fetchOnce c2 k (fetchOnce c1 k s)))),
                 resume c1 (resume c2 (settle (length (fetched s)) r (fetchOnce c2 k (fetchOnce c1 k s))))}.
            fetched t = fetched s @ [url_of k] \<and>
            returned t c1 = Some (outcome r) \<and> returned t c2 = Some (outcome r) \<and>
            inflight t k = None \<and>
            cache t k = (case outcome r of Inl e \<Rightarrow> None | Inr v \<Rightarrow> Some v) \<and>
            (case outcome r of
               Inl e \<Rightarrow> fetched (fetchOnce c3 k t) = fetched t @ [url_of k]
             | Inr v \<Rightarrow> fetched (fetchOnce c3 k t) = fetched t \<and>
                         returned (fetchOnce c3 k t) c3 = Some (Inr v))) \<and>
         (cache u k' = Some v' \<longrightarrow>
            fetched (fetchOnce c k' u) = fetched u \<and>
            returned (fetchOnce c k' u) c = Some (Inr v'))"
proof -
  let ?p = "length (fetched s)"
  let ?s2 = "fetchOnce c2 k (fetchOnce c1 k s)"
  have s1: "fetchOnce c1 k s =
      s\<lparr>fetched := fetched s @ [url_of k], inflight := (inflight s)(k \<mapsto> ?p),
        awaiting := (awaiting s)(c1 \<mapsto> (k, ?p))\<rparr>"
    by (rule fetchOnce_miss [OF assms(1,2)])
  have s2: "?s2 =
      s\<lparr>fetched := fetched s @ [url_of k], inflight := (inflight s)(k \<mapsto> ?p),
        awaiting := (awaiting s)(c1 \<mapsto> (k, ?p), c2 \<mapsto> (k, ?p))\<rparr>"
    unfolding s1 using assms(1) by (simp add: fetchOnce_def)
  have s3: "settle ?p r ?s2 =
      s\<lparr>fetched := fetched s @ [url_of k], inflight := (inflight s)(k \<mapsto> ?p),
        awaiting := (awaiting s)(c1 \<mapsto> (k, ?p), c2 \<mapsto> (k, ?p)),
        settled := (settled s)(?p \<mapsto> outcome r)\<rparr>"
    unfolding s2 using assms(4) by (simp add: settle_def)
  show ?thesis
  proof (cases "outcome r")
    case (Inl e)
    show ?thesis
      unfolding s3 unfolding s2
      using assms(1,3) Inl by (simp add: resume_def fetchOnce_def fetchOnce_hit)
  next
    case (Inr v)
    show ?thesis
      unfolding s3 unfolding s2
      using assms(1,3) Inr by (simp add: resume_def fetchOnce_def fetchOnce_hit)
  qed
qed


theorem fetchOnce_deduplicates_witness:
  "cache new_query_state ''type=error'' = None \<and> inflight new_query_state ''type=error'' = None \<and>
   (1::nat) \<noteq> 2 \<and> settled new_query_state (length (fetched new_query_state)) = None \<and>
   fetched (fetchOnce 2 ''type=error'' (fetchOnce 1 ''type=error'' new_query_state)) =
     [''/api/oneminutelogs/logs?type=error''] \<and>
   returned (resume 2 (resume 1 (settle 0 (Inr (Response 200 ''[]'' (Inr (JArr []))))
     (fetchOnce 2 ''type=error'' (fetchOnce 1 ''type=error'' new_query_state))))) 1 =
     Some (Inr (JArr [])) \<and>
   returned (resume 2 (resume 1 (settle 0 (Inr (Response 200 ''[]'' (Inr (JArr []))))
     (fetchOnce 2 ''type=error'' (fetchOnce 1 ''type=error'' new_query_state))))) 2 =
     Some (Inr (JArr [])) \<and>
   cache (resume 1 (resume 2 (settle 0 (Inl (JsError ''TypeError'' ''Failed to fetch''))
     (fetchOnce 2 ''type=error'' (fetchOnce 1 ''type=error'' new_query_state))))) ''type=error'' = None \<and>
   inflight (resume 1 (resume 2 (settle 0 (Inl (JsError ''TypeError'' ''Failed to fetch''))
     (fetchOnce 2 ''type=error'' (fetchOnce 1 ''type=error'' new_query_state))))) ''type=error'' = None \<and>
   fetched (fetchOnce 3 ''type=error''
     (resume 1 (resume 2 (settle 0 (Inl (JsError ''TypeError'' ''Failed to fetch''))
       (fetchOnce 2 ''type=error'' (fetchOnce 1 ''type=error'' new_query_state)))))) =
     [''/api/oneminutelogs/logs?type=error'', ''/api/oneminutelogs/logs?type=error'']"
proof -
  let ?k = "''type=error''"
  let ?good = "Inr (Response 200 ''[]'' (Inr (JArr []))) :: js_error + response"
  let ?bad = "Inl (JsError ''TypeError'' ''Failed to fetch'') :: js_error + response"
  have h: "cache new_query_state ?k = None" "inflight new_query_state ?k = None"
    "(1::nat) \<noteq> 2" "settled new_query_state (length (fetched new_query_state)) = None"
    by (simp_all add: new_query_state_def)
  have z: "length (fetched new_query_state) = 0" "fetched new_query_state = []"
    by (simp_all add: new_query_state_def)
  have o: "outcome ?good = Inr (JArr [])" "outcome ?bad = Inl (JsError ''TypeError'' ''Failed to fetch'')"
    by (simp_all add: outcome_def on_response_def ok_def)
  have u: "url_of ?k = ''/api/oneminutelogs/logs?type=error''"
    by (simp add: url_of_def)
  note good = fetchOnce_deduplicates [OF h, of ?good 3 new_query_state ?k JNull 0]
  note bad = fetchOnce_deduplicates [OF h, of ?bad 3 new_query_state ?k JNull 0]
  show ?thesis
    using h good bad unfolding z o u by simp
qed

text \<open>
  The statement of C6 for every state fails: while the first request for a key is
  pending, \<open>refetch\<close> for the same key makes no network call and waits for the
  pending promise, number 0.
\<close>
theorem refetch_joins_pending_request:
  "cache pending_query ''type=error'' = None \<and>
   fetched pending_query = [''/api/oneminutelogs/logs?type=error''] \<and>
   fetched (refetch 1 ''type=error'' pending_query) = fetched pending_query \<and>
   awaiting (refetch 1 ''type=error'' pending_query) 1 = Some (''type=error'', 0)"
  by (simp add: pending_query_def new_query_state_def refetch_def fetchOnce_def url_of_def)

text \<open>
  C6 (as amended). \<open>refetch\<close> deletes the cache entry of its key. When no request
  for the key is in flight, it then makes one new network call and its caller receives
  the outcome of that call. In every reachable state a key with a cache entry has no
  request in flight, so a cache entry never keeps \<open>refetch\<close> from a new network
  call. When a request for the key is in flight, \<open>refetch\<close> waits for that request
  and makes no call of its own.
\<close>
theorem refetch_fresh_round_trip:
  "(inflight s k = None \<longrightarrow>
      cache (refetch c k s) k = None \<and>
      fetched (refetch c k s) = fetched s @ [url_of k] \<and>
      awaiting (refetch c k s) c = Some (k, length (fetched s)) \<and>
      (settled s (length (fetched s)) = None \<longrightarrow>
         returned (resume c (settle (length (fetched s)) r (refetch c k s))) c =
           Some (outcome r))) \<and>
   (reachable s \<and> cache s k \<noteq> None \<longrightarrow> inflight s k = None) \<and>
   (inflight s k = Some p \<longrightarrow>
      cache (refetch c k s) k = None \<and>
      fetched (refetch c k s) = fetched s \<and>
      awaiting (refetch c k s) c = Some (k, p))"
proof (intro conjI impI)
  assume free: "inflight s k = None"
  then show "cache (refetch c k s) k = None"
    "fetched (refetch c k s) = fetched s @ [url_of k]"
    "awaiting (refetch c k s) c = Some (k, length (fetched s))"
    by (simp_all add: refetch_def fetchOnce_def)
  assume "settled s (length (fetched s)) = None"
  with free show "returned (resume c (settle (length (fetched s)) r (refetch c k s))) c =
           Some (outcome r)"
    by (cases "outcome r") (simp_all add: refetch_def fetchOnce_def settle_def resume_def)
next
  assume "reachable s \<and> cache s k \<noteq> None"
  then show "inflight s k = None"
    using cache_excludes_inflight [of s k] by blast
next
  assume "inflight s k = Some p"
  then show "cache (refetch c k s) k = None"
    "fetched (refetch c k s) = fetched s"
    "awaiting (refetch c k s) c = Some (k, p)"
    by (simp_all add: refetch_def fetchOnce_def)
qed

theorem refetch_fresh_round_trip_witness:
  "reachable (resume 0 (settle 0 (Inr (Response 200 ''[]'' (Inr (JArr [])))) pending_query)) \<and>
   cache (resume 0 (settle 0 (Inr (Response 200 ''[]'' (Inr (JArr [])))) pending_query)) ''type=error'' =
     Some (JArr []) \<and>
   inflight (resume 0 (settle 0 (Inr (Response 200 ''[]'' (Inr (JArr [])))) pending_query)) ''type=error'' = None \<and>
   fetched (refetch 1 ''type=error''
     (resume 0 (settle 0 (Inr (Response 200 ''[]'' (Inr (JArr [])))) pending_query))) =
     [''/api/oneminutelogs/logs?type=error'', ''/api/oneminutelogs/logs?type=error''] \<and>
   returned (resume 1 (settle 1 (Inr (Response 200 ''[1]'' (Inr (JArr [JNum 1]))))
     (refetch 1 ''type=error''
       (resume 0 (settle 0 (Inr (Response 200 ''[]'' (Inr (JArr [])))) pending_query))))) 1 =
     Some (Inr (JArr [JNum 1])) \<and>
   inflight pending_query ''type=error'' = Some 0 \<and>
   fetched (refetch 1 ''type=error'' pending_query) = [''/api/oneminutelogs/logs?type=error'']"
proof -
  let ?s = "resume 0 (settle 0 (Inr (Response 200 ''[]'' (Inr (JArr [])))) pending_query)"
  have reach: "reachable ?s"
    unfolding pending_query_def by (intro reachable.intros)
  have cached: "cache ?s ''type=error'' = Some (JArr [])"
    and len: "fetched ?s = [''/api/oneminutelogs/logs?type=error'']"
    and unsettled: "settled ?s (length (fetched ?s)) = None"
    by (simp_all add: pending_query_def new_query_state_def fetchOnce_def settle_def resume_def
        outcome_def on_response_def ok_def url_of_def)
  have pend: "inflight pending_query ''type=error'' = Some 0"
    and plen: "fetched pending_query = [''/api/oneminutelogs/logs?type=error'']"
    by (simp_all add: pending_query_def new_query_state_def fetchOnce_def url_of_def)
  note a = refetch_fresh_round_trip [of ?s "''type=error''" 1
      "Inr (Response 200 ''[1]'' (Inr (JArr [JNum 1])))" 0]
  note b = refetch_fresh_round_trip [of pending_query "''type=error''" 1
      "Inr (Response 200 ''[1]'' (Inr (JArr [JNum 1])))" 0]
  from a reach cached have free: "inflight ?s ''type=error'' = None"
    by simp
  show ?thesis
    using a b reach cached free len unsettled pend plen
    by (simp add: outcome_def on_response_def ok_def url_of_def)
qed

section \<open>Properties of the stream hook\<close>

lemma cap_drop: "cap xs = drop (length xs - 5000) xs"
  by (simp add: cap_def)

lemma cap_length: "length (cap xs) \<le> 5000"
  by (simp add: cap_def)

lemma cap_small: "length xs \<le> 5000 \<Longrightarrow> cap xs = xs"
  by (simp add: cap_def)

lemma cap_append: "cap (cap xs @ ys) = cap (xs @ ys)"
proof (cases "length xs \<le> 5000")
  case True
  then show ?thesis by (simp add: cap_small)
next
  case False
  then have k: "length xs - 5000 + 5000 = length xs"
    by simp
  have "length (xs @ ys) - 5000 = length ys + (length xs - 5000)"
    using False by simp
  then have "cap (xs @ ys) = drop (length ys) (drop (length xs - 5000) (xs @ ys))"
    by (simp add: cap_drop)
  also have "\<dots> = drop (length ys) (cap xs @ ys)"
    using False by (simp add: cap_drop)
  also have "\<dots> = cap (cap xs @ ys)"
    using False by (simp add: cap_drop)
  finally show ?thesis by simp
qed

lemma rawType_ok: "type_ok v \<Longrightarrow> \<exists>t. rawType v = Inr t"
  by (induction v rule: type_ok.induct) simp_all

lemma rawType_returns: "rawType v = Inr t \<Longrightarrow> type_ok v"
  by (induction v rule: type_ok.induct) (auto split: if_splits)

lemma tsIso_ok: "timestamp_ok env v \<Longrightarrow> \<exists>t. tsIso env v = Inr t"
  by (induction env v rule: timestamp_ok.induct)
     (auto simp: toISOString_def new_Date_def Let_def split: prod.splits)

lemma toLogEntry_ok:
  assumes "well_formed env r"
  shows "\<exists>e. toLogEntry env u (JObj r) = Inr e"
proof -
  from assms obtain t where t: "rawType (map_of r ''type'') = Inr t"
    using rawType_ok by (auto simp: well_formed_def)
  from assms obtain i where i: "tsIso env (map_of r ''timestamp'') = Inr i"
    using tsIso_ok by (auto simp: well_formed_def)
  show ?thesis by (simp add: toLogEntry_def t i)
qed

lemma toLogEntries_length:
  "toLogEntries env n ls = Inr es \<Longrightarrow> length es = length ls"
  by (induction ls arbitrary: n es) (auto split: sum.splits)

lemma toLogEntries_ok:
  "\<forall>r\<in>set rs. well_formed env r \<Longrightarrow> \<exists>es. toLogEntries env n (map JObj rs) = Inr es"
proof (induction rs arbitrary: n)
  case Nil
  then show ?case by simp
next
  case (Cons r rs)
  from Cons.prems obtain e where "toLogEntry env (randomUUID env n) (JObj r) = Inr e"
    using toLogEntry_ok by fastforce
  moreover from Cons obtain es where "toLogEntries env (Suc n) (map JObj rs) = Inr es"
    by fastforce
  ultimately show ?case by simp
qed

lemma incoming_single:
  assumes "truthy_opt (map_of r ''keyId'')" and "\<not> isArray (map_of r ''logs'')"
  shows "incoming env n (JObj r) = toLogEntries env n [JObj r]"
  using assms by (simp add: incoming_def)

lemma onmessage_single:
  assumes "single_record env r" and "toLogEntry env (randomUUID env (uuids s)) (JObj r) = Inr e"
  shows "onmessage env (Inr (JObj r)) s =
           Inr (s\<lparr>data := cap (data s @ [e]), isLoading := False, uuids := Suc (uuids s)\<rparr>)"
  using assms
  by (simp add: onmessage_def updater_def incoming_single single_record_def property_opt_def)

lemma feed_singles:
  assumes "\<forall>r\<in>set rs. single_record env r"
    and "toLogEntries env (uuids s) (map JObj rs) = Inr es"
    and "length (data s) \<le> 5000"
  shows "\<exists>s'. feed env (map JObj rs) s = Inr s' \<and> data s' = cap (data s @ es) \<and>
              uuids s' = uuids s + length rs"
  using assms
proof (induction rs arbitrary: s es)
  case Nil
  then show ?case by (simp add: cap_small)
next
  case (Cons r rs)
  from Cons.prems(2) obtain e es' where
    e: "toLogEntry env (randomUUID env (uuids s)) (JObj r) = Inr e"
    and es': "toLogEntries env (Suc (uuids s)) (map JObj rs) = Inr es'"
    and es: "es = e # es'"
    by (auto split: sum.splits)
  let ?s1 = "s\<lparr>data := cap (data s @ [e]), isLoading := False, uuids := Suc (uuids s)\<rparr>"
  have step: "onmessage env (Inr (JObj r)) s = Inr ?s1"
    using Cons.prems(1) e by (simp add: onmessage_single)
  have "\<exists>s'. feed env (map JObj rs) ?s1 = Inr s' \<and> data s' = cap (data ?s1 @ es') \<and>
              uuids s' = uuids ?s1 + length rs"
    using Cons.prems(1) es' by (intro Cons.IH) (simp_all add: cap_length)
  then obtain s' where s': "feed env (map JObj rs) ?s1 = Inr s'"
    "data s' = cap (data ?s1 @ es')" "uuids s' = uuids ?s1 + length rs"
    by blast
  have "data s' = cap (data s @ es)"
    using s'(2) es cap_append [of "data s @ [e]" es'] by simp
  with s' step show ?case by simp
qed

lemma updater_length: "updater env n pl prev = Inr next \<Longrightarrow> length next \<le> 5000"
  by (auto simp: updater_def cap_length split: sum.splits if_splits)

lemma onmessage_ignored:
  assumes "\<not> truthy_opt (map_of r ''keyId'')" and "\<not> isArray (map_of r ''logs'')"
    and "map_of r ''type'' \<noteq> Some (JStr ''initial'')" and "length (data s) \<le> 5000"
  shows "onmessage env (Inr (JObj r)) s = Inr (s\<lparr>isLoading := False\<rparr>)"
  using assms
  by (simp add: onmessage_def updater_def incoming_def property_opt_def cap_small)

lemma feed_ignored:
  assumes "\<not> truthy_opt (map_of r ''keyId'')" and "\<not> isArray (map_of r ''logs'')"
    and "map_of r ''type'' \<noteq> Some (JStr ''initial'')" and "length (data s) \<le> 5000"
  shows "feed env (replicate (Suc n) (JObj r)) s = Inr (s\<lparr>isLoading := False\<rparr>)"
  using assms(4)
proof (induction n arbitrary: s)
  case 0
  then show ?case using assms(1-3) by (simp add: onmessage_ignored)
next
  case (Suc n)
  have "feed env (replicate (Suc (Suc n)) (JObj r)) s =
        feed env (replicate (Suc n) (JObj r)) (s\<lparr>isLoading := False\<rparr>)"
    using assms(1-3) Suc.prems by (simp add: onmessage_ignored)
  also have "\<dots> = Inr (s\<lparr>isLoading := False\<rparr>)"
    using Suc.IH [of "s\<lparr>isLoading := False\<rparr>"] Suc.prems by simp
  finally show ?case .
qed

text \<open>
  The statement of C7 for every single-record message fails: 5001 messages that each
  hold the record of the specification's example, which has no \<open>keyId\<close>, leave the
  empty window empty.
\<close>
theorem records_without_keyId_leave_window_empty:
  "feed sample_env (map JObj (replicate 5001 example_record)) new_stream =
     Inr (new_stream\<lparr>isLoading := False\<rparr>) \<and>
   data (new_stream\<lparr>isLoading := False\<rparr>) = []"
proof -
  have "feed sample_env (replicate (Suc 5000) (JObj example_record)) new_stream =
     Inr (new_stream\<lparr>isLoading := False\<rparr>)"
    by (rule feed_ignored) (simp_all add: example_record_def new_stream_def)
  then show ?thesis
    by (simp add: new_stream_def)
qed

text \<open>
  C7 (as amended). A window of at most 5000 entries has at most 5000 entries after any
  message that \<open>onmessage\<close> processes. An incremental message leaves the last 5000
  of the previous window followed by the incoming entries: what is dropped is dropped
  from the front. Feeding 5001 messages into an empty window, each a single record
  that has a truthy \<open>keyId\<close>, no array under \<open>logs\<close>, is not tagged
  \<open>initial\<close> and is accepted by \<open>toLogEntry\<close>, succeeds and gives the entries
  of the records 2 to 5001 in the order of arrival, 5000 in all.
\<close>
theorem stream_window_capped:
  "(length (data s) \<le> 5000 \<and> onmessage env m s = Inr s' \<longrightarrow> length (data s') \<le> 5000) \<and>
   (incoming env n pl = Inr inc \<and> property_opt pl ''type'' \<noteq> Some (JStr ''initial'') \<longrightarrow>
      updater env n pl prev = Inr (drop (length (prev @ inc) - 5000) (prev @ inc))) \<and>
   (length rs = 5001 \<and> (\<forall>r\<in>set rs. single_record env r) \<and> data s0 = [] \<longrightarrow>
      (\<exists>es s''. toLogEntries env (uuids s0) (map JObj rs) = Inr es \<and> length es = 5001 \<and>
                feed env (map JObj rs) s0 = Inr s'' \<and>
                data s'' = drop 1 es \<and> length (data s'') = 5000))"
proof (intro conjI impI)
  assume "length (data s) \<le> 5000 \<and> onmessage env m s = Inr s'"
  then show "length (data s') \<le> 5000"
    by (cases m) (auto simp: onmessage_def split: sum.splits dest: updater_length)
next
  assume "incoming env n pl = Inr inc \<and> property_opt pl ''type'' \<noteq> Some (JStr ''initial'')"
  then show "updater env n pl prev = Inr (drop (length (prev @ inc) - 5000) (prev @ inc))"
    by (simp add: updater_def cap_drop)
next
  assume a: "length rs = 5001 \<and> (\<forall>r\<in>set rs. single_record env r) \<and> data s0 = []"
  then have wf: "\<forall>r\<in>set rs. well_formed env r"
    by (simp add: single_record_def)
  from toLogEntries_ok [OF wf] obtain es where
    es: "toLogEntries env (uuids s0) (map JObj rs) = Inr es"
    by blast
  then have len: "length es = 5001"
    using a toLogEntries_length by fastforce
  from feed_singles [of rs env s0 es] a es obtain s'' where
    s'': "feed env (map JObj rs) s0 = Inr s''" "data s'' = cap (data s0 @ es)"
    by auto
  have "data s'' = drop 1 es"
    using s''(2) a len by (simp add: cap_def)
  with es len s''(1)
  show "\<exists>es s''. toLogEntries env (uuids s0) (map JObj rs) = Inr es \<and> length es = 5001 \<and>
                feed env (map JObj rs) s0 = Inr s'' \<and>
                data s'' = drop 1 es \<and> length (data s'') = 5000"
    by auto
qed


lemma numbered_record_single: "single_record sample_env (numbered_record i)"
  by (simp add: single_record_def well_formed_def numbered_record_def)

theorem stream_window_capped_witness:
  "length many_records = 5001 \<and> single_record sample_env (numbered_record 1) \<and>
   single_record sample_env (numbered_record 5001) \<and> data new_stream = [] \<and>
   (\<exists>es s''. toLogEntries sample_env (uuids new_stream) (map JObj many_records) = Inr es \<and>
             length es = 5001 \<and>
             feed sample_env (map JObj many_records) new_stream = Inr s'' \<and>
             data s'' = drop 1 es \<and> length (data s'') = 5000)"
proof -
  have h: "length many_records = 5001" "\<forall>r\<in>set many_records. single_record sample_env r"
    "data new_stream = []"
    by (simp_all add: many_records_def numbered_record_single new_stream_def)
  from stream_window_capped [of new_stream sample_env "Inr JNull" new_stream 0 JNull "[]" "[]"
      many_records new_stream] h
  show ?thesis by (simp add: numbered_record_single)
qed

lemma example_iso: "toISOString (new_Date (1700000000 * 1000)) = Inr ''2023-11-14T22:13:20.000Z''"
  by code_simp

lemma example_type: "toLowerCase ''ERROR'' = ''error''"
  by code_simp

lemma lower_info: "toLowerCase ''info'' = ''info''"
  by code_simp

lemma rawType_unrecognised:
  "type_ok v \<Longrightarrow> \<not> recognised v \<Longrightarrow> \<exists>t. rawType v = Inr t \<and> level_of t = ''info''"
proof (induction v rule: type_ok.induct)
  case (1 t)
  then show ?case
    by (auto simp: level_of_def lower_info)
qed (simp_all add: level_of_def lower_info)

text \<open>
  C8. The initial envelope that holds the one record of type \<open>ERROR\<close>, message
  \<open>m\<close> and timestamp 1700000000 replaces any window by the one entry of level
  \<open>error\<close> whose \<open>ts\<close> is the ISO form of that epoch second. A record that
  \<open>toLogEntry\<close> accepts and whose type is absent, falsy or a string that does not
  lower-case to one of warning, success, error, debug, audit, metric is given an entry
  of level \<open>info\<close>; and whenever \<open>toLogEntry\<close> returns an entry for a value with
  such a type, its level is \<open>info\<close>.
\<close>
theorem initial_example_normalised:
  "updater env n initial_message prev =
     Inr [\<lparr>entry_id = randomUUID env n, ts = ''2023-11-14T22:13:20.000Z'', level = ''error'',
           source = JStr ''default'', message = Some (JStr ''m''),
           payload = example_record\<rparr>] \<and>
   toISOString (new_Date (1700000000 * 1000)) = Inr ''2023-11-14T22:13:20.000Z'' \<and>
   (well_formed env r \<and> \<not> recognised (map_of r ''type'') \<longrightarrow>
      (\<exists>e. toLogEntry env u (JObj r) = Inr e \<and> level e = ''info'')) \<and>
   (\<not> recognised (property l ''type'') \<and> toLogEntry env u' l = Inr e' \<longrightarrow> level e' = ''info'')"
proof (intro conjI impI)
  have one: "toLogEntry env (randomUUID env n) (JObj example_record) =
      Inr \<lparr>entry_id = randomUUID env n, ts = ''2023-11-14T22:13:20.000Z'', level = ''error'',
           source = JStr ''default'', message = Some (JStr ''m''),
           payload = example_record\<rparr>"
    unfolding toLogEntry_def
    by (simp add: example_record_def example_iso [simplified] example_type level_of_def
        source_of_def)
  have two: "incoming env n initial_message = toLogEntries env n [JObj example_record]"
    by (simp add: incoming_def initial_message_def)
  show "updater env n initial_message prev =
     Inr [\<lparr>entry_id = randomUUID env n, ts = ''2023-11-14T22:13:20.000Z'', level = ''error'',
           source = JStr ''default'', message = Some (JStr ''m''),
           payload = example_record\<rparr>]"
    unfolding updater_def two
    by (simp add: one) (simp add: initial_message_def property_opt_def cap_def)
next
  show "toISOString (new_Date (1700000000 * 1000)) = Inr ''2023-11-14T22:13:20.000Z''"
    by (rule example_iso)
next
  assume a: "well_formed env r \<and> \<not> recognised (map_of r ''type'')"
  then obtain t where t: "rawType (map_of r ''type'') = Inr t" "level_of t = ''info''"
    using rawType_unrecognised [of "map_of r ''type''"] by (auto simp: well_formed_def)
  from a obtain i where i: "tsIso env (map_of r ''timestamp'') = Inr i"
    using tsIso_ok by (auto simp: well_formed_def)
  show "\<exists>e. toLogEntry env u (JObj r) = Inr e \<and> level e = ''info''"
    by (simp add: toLogEntry_def t i)
next
  assume b: "\<not> recognised (property l ''type'') \<and> toLogEntry env u' l = Inr e'"
  then obtain t where t: "rawType (property l ''type'') = Inr t" "level e' = level_of t"
    by (auto simp: toLogEntry_def split: if_splits sum.splits)
  from t(1) have "type_ok (property l ''type'')"
    by (rule rawType_returns)
  with b t show "level e' = ''info''"
    using rawType_unrecognised [of "property l ''type''"] by auto
qed

theorem initial_example_normalised_witness:
  "well_formed sample_env [(''type'', JStr ''TRACE''), (''timestamp'', JNum 1700000000)] \<and>
   \<not> recognised (map_of [(''type'', JStr ''TRACE''), (''timestamp'', JNum 1700000000)] ''type'') \<and>
   (\<exists>e. toLogEntry sample_env ''id-0''
           (JObj [(''type'', JStr ''TRACE''), (''timestamp'', JNum 1700000000)]) = Inr e \<and>
        level e = ''info'') \<and>
   well_formed sample_env (numbered_record 7) \<and>
   \<not> recognised (map_of (numbered_record 7) ''type'') \<and>
   (\<exists>e. toLogEntry sample_env ''id-1'' (JObj (numbered_record 7)) = Inr e \<and> level e = ''info'')"
proof -
  have lower: "toLowerCase ''TRACE'' = ''trace''"
    by code_simp
  have h: "well_formed sample_env [(''type'', JStr ''TRACE''), (''timestamp'', JNum 1700000000)]"
    "\<not> recognised (map_of [(''type'', JStr ''TRACE''), (''timestamp'', JNum 1700000000)] ''type'')"
    "well_formed sample_env (numbered_record 7)"
    "\<not> recognised (map_of (numbered_record 7) ''type'')"
    by (simp_all add: well_formed_def numbered_record_def lower)
  from h
    initial_example_normalised [of sample_env 0 "[]"
      "[(''type'', JStr ''TRACE''), (''timestamp'', JNum 1700000000)]" "''id-0''" JNull "[]"]
    initial_example_normalised [of sample_env 0 "[]" "numbered_record 7" "''id-1''" JNull "[]"]
  show ?thesis by blast
qed


lemma example_entry:
  "toLogEntry sample_env ''id-0'' (JObj example_record) =
     Inr \<lparr>entry_id = ''id-0'', ts = ''2023-11-14T22:13:20.000Z'', level = ''error'',
          source = JStr ''default'', message = Some (JStr ''m''), payload = example_record\<rparr>"
  unfolding toLogEntry_def
  by (simp add: example_record_def example_iso [simplified] example_type level_of_def
      source_of_def)

lemma sample_uuid_0: "randomUUID sample_env 0 = ''id-0''"
  by (simp add: sample_env_def digits.simps)

text \<open>
  The statement of C9 fails for the single record: the record of the specification's
  example, sent alone, is ignored and the window stays empty, while the same record
  in a bare array or under \<open>logs\<close> is normalised and appended.
\<close>
theorem bare_record_without_keyId_dropped:
  "updater sample_env 0 (JObj example_record) [] = Inr [] \<and>
   updater sample_env 0 (JArr [JObj example_record]) [] =
     Inr [\<lparr>entry_id = ''id-0'', ts = ''2023-11-14T22:13:20.000Z'', level = ''error'',
           source = JStr ''default'', message = Some (JStr ''m''), payload = example_record\<rparr>] \<and>
   updater sample_env 0 (JObj [(''logs'', JArr [JObj example_record])]) [] =
     Inr [\<lparr>entry_id = ''id-0'', ts = ''2023-11-14T22:13:20.000Z'', level = ''error'',
           source = JStr ''default'', message = Some (JStr ''m''), payload = example_record\<rparr>]"
proof -
  have a: "incoming sample_env 0 (JObj example_record) = Inr []"
    by (simp add: incoming_def example_record_def)
  have b: "incoming sample_env 0 (JArr [JObj example_record]) =
      toLogEntries sample_env 0 [JObj example_record]"
    "incoming sample_env 0 (JObj [(''logs'', JArr [JObj example_record])]) =
      toLogEntries sample_env 0 [JObj example_record]"
    by (simp_all add: incoming_def)
  have c: "property_opt (JObj example_record) ''type'' \<noteq> Some (JStr ''initial'')"
    "property_opt (JArr [JObj example_record]) ''type'' \<noteq> Some (JStr ''initial'')"
    "property_opt (JObj [(''logs'', JArr [JObj example_record])]) ''type'' \<noteq> Some (JStr ''initial'')"
    by (simp_all add: property_opt_def example_record_def)
  show ?thesis
    unfolding updater_def a b
    using c by (simp add: sample_uuid_0 example_entry cap_def)
qed

text \<open>
  C9 (as amended). An envelope that is not tagged \<open>initial\<close> and carries an array
  under \<open>logs\<close> gives the same window as that array sent bare: every element is
  mapped by \<open>toLogEntry\<close>, in order, and the entries are appended to the window,
  which is then capped. A single record object gives the same window as the one-element
  array that holds it if it has a truthy \<open>keyId\<close> (and is no envelope itself: no
  array under \<open>logs\<close>, not tagged \<open>initial\<close>). A single object without a
  truthy \<open>keyId\<close> is ignored: the window stays as it is.
\<close>
theorem incremental_shapes_normalised_alike:
  "(map_of ps ''logs'' = Some (JArr ls) \<and> map_of ps ''type'' \<noteq> Some (JStr ''initial'') \<longrightarrow>
      updater env n (JObj ps) prev = updater env n (JArr ls) prev) \<and>
   updater env n (JArr ls) prev =
     (case toLogEntries env n ls of Inl e \<Rightarrow> Inl e | Inr es \<Rightarrow> Inr (cap (prev @ es))) \<and>
   (truthy_opt (map_of r ''keyId'') \<and> \<not> isArray (map_of r ''logs'') \<and>
    map_of r ''type'' \<noteq> Some (JStr ''initial'') \<longrightarrow>
      updater env n (JObj r) prev = updater env n (JArr [JObj r]) prev) \<and>
   (\<not> truthy_opt (map_of r' ''keyId'') \<and> \<not> isArray (map_of r' ''logs'') \<and>
    map_of r' ''type'' \<noteq> Some (JStr ''initial'') \<longrightarrow>
      updater env n (JObj r') prev = Inr (cap prev))"
  by (auto simp: updater_def incoming_def property_opt_def split: sum.splits)

theorem incremental_shapes_normalised_alike_witness:
  "map_of [(''logs'', JArr [JObj (numbered_record 1)])] ''logs'' = Some (JArr [JObj (numbered_record 1)]) \<and>
   map_of [(''logs'', JArr [JObj (numbered_record 1)])] ''type'' \<noteq> Some (JStr ''initial'') \<and>
   truthy_opt (map_of (numbered_record 1) ''keyId'') \<and>
   \<not> isArray (map_of (numbered_record 1) ''logs'') \<and>
   map_of (numbered_record 1) ''type'' \<noteq> Some (JStr ''initial'') \<and>
   updater sample_env 0 (JObj [(''logs'', JArr [JObj (numbered_record 1)])]) [] =
     updater sample_env 0 (JArr [JObj (numbered_record 1)]) [] \<and>
   updater sample_env 0 (JObj (numbered_record 1)) [] =
     updater sample_env 0 (JArr [JObj (numbered_record 1)]) [] \<and>
   \<not> truthy_opt (map_of example_record ''keyId'') \<and>
   \<not> isArray (map_of example_record ''logs'') \<and>
   map_of example_record ''type'' \<noteq> Some (JStr ''initial'') \<and>
   updater sample_env 0 (JObj example_record) [] = Inr (cap [])"
proof -
  have h: "map_of [(''logs'', JArr [JObj (numbered_record 1)])] ''logs'' = Some (JArr [JObj (numbered_record 1)])"
    "map_of [(''logs'', JArr [JObj (numbered_record 1)])] ''type'' \<noteq> Some (JStr ''initial'')"
    "truthy_opt (map_of (numbered_record 1) ''keyId'')"
    "\<not> isArray (map_of (numbered_record 1) ''logs'')"
    "map_of (numbered_record 1) ''type'' \<noteq> Some (JStr ''initial'')"
    "\<not> truthy_opt (map_of example_record ''keyId'')"
    "\<not> isArray (map_of example_record ''logs'')"
    "map_of example_record ''type'' \<noteq> Some (JStr ''initial'')"
    by (simp_all add: numbered_record_def example_record_def)
  from h
    incremental_shapes_normalised_alike [of "[(''logs'', JArr [JObj (numbered_record 1)])]"
      "[JObj (numbered_record 1)]" sample_env 0 "[]" "numbered_record 1" example_record]
  show ?thesis by blast
qed

section \<open>Properties of the query result\<close>

text \<open>
  C10. After a request that resolved with the body \<open>b\<close>, \<open>data\<close> is \<open>b\<close>
  itself when \<open>b\<close> is an array; otherwise the value under \<open>logs\<close> when there is
  one other than \<open>null\<close>; otherwise \<open>b\<close> itself when it is not \<open>null\<close>;
  otherwise the empty array. So an object without \<open>logs\<close> is stored as it is, and
  \<open>data\<close> need not be an array.
\<close>
theorem fetchLogs_data_shape:
  "(isArray (Some b) \<longrightarrow> data (fetchLogs_resume (Inr b) h) = b) \<and>
   (\<not> isArray (Some b1) \<and> property b1 ''logs'' = Some v \<and> v \<noteq> JNull \<longrightarrow>
      data (fetchLogs_resume (Inr b1) h) = v) \<and>
   (\<not> isArray (Some b2) \<and> b2 \<noteq> JNull \<and>
    (property b2 ''logs'' = None \<or> property b2 ''logs'' = Some JNull) \<longrightarrow>
      data (fetchLogs_resume (Inr b2) h) = b2) \<and>
   data (fetchLogs_resume (Inr JNull) h) = JArr [] \<and>
   data (fetchLogs_resume (Inr (JObj [(''total'', JNum 3)])) h) = JObj [(''total'', JNum 3)]"
proof -
  have n: "\<And>x. nullish (Some x) = (x = JNull)"
    by (case_tac x) simp_all
  show ?thesis
    by (auto simp: fetchLogs_resume_def rows_def coalesce_def property_opt_def n)
qed

theorem fetchLogs_data_shape_witness:
  "isArray (Some (JArr [JNum 1])) \<and>
   data (fetchLogs_resume (Inr (JArr [JNum 1])) \<lparr>data = JNull, isLoading = True, error = None\<rparr>) =
     JArr [JNum 1] \<and>
   data (fetchLogs_resume (Inr (JObj [(''logs'', JArr [JNum 2])]))
     \<lparr>data = JNull, isLoading = True, error = None\<rparr>) = JArr [JNum 2] \<and>
   data (fetchLogs_resume (Inr (JObj [(''logs'', JStr ''x'')]))
     \<lparr>data = JNull, isLoading = True, error = None\<rparr>) = JStr ''x'' \<and>
   data (fetchLogs_resume (Inr (JObj [(''logs'', JNull), (''count'', JNum 0)]))
     \<lparr>data = JNull, isLoading = True, error = None\<rparr>) =
     JObj [(''logs'', JNull), (''count'', JNum 0)] \<and>
   data (fetchLogs_resume (Inr (JStr ''plain'')) \<lparr>data = JNull, isLoading = True, error = None\<rparr>) =
     JStr ''plain''"
  using
    fetchLogs_data_shape [of "JArr [JNum 1]" "\<lparr>data = JNull, isLoading = True, error = None\<rparr>"
      "JObj [(''logs'', JArr [JNum 2])]" "JArr [JNum 2]"
      "JObj [(''logs'', JNull), (''count'', JNum 0)]"]
    fetchLogs_data_shape [of "JArr [JNum 1]" "\<lparr>data = JNull, isLoading = True, error = None\<rparr>"
      "JObj [(''logs'', JStr ''x'')]" "JStr ''x''" "JStr ''plain''"]
  by simp

end
